theory Spec2Isabelle
  imports Main "HOL-Library.AList" "HOL-Library.Word"
begin

section \<open>Data model of \<open>getEnsText\<close>\<close>

text \<open>
  The development embeds the action \<open>getEnsText\<close> (src/unnamed/part_000, lines 101--178).
  Everything the action imports from other modules is a collaborator whose code is not
  part of the embedded file; those functions are fields of the record \<open>env\<close> below, and
  every theorem about \<open>getEnsText\<close> holds for all of them.
\<close>

type_synonym hex = string
type_synonym address = string
type_synonym byte = "8 word"

text \<open>
  What a JavaScript \<open>throw\<close> carries: the plain \<open>Error\<close> the action builds itself
  (line 118, with its message), or any value \<open>'x\<close> thrown by a collaborator.
\<close>

datatype 'x exn = Error string | Thrown 'x

text \<open>The second argument of \<open>isNullUniversalResolverError\<close>: \<open>'resolve'\<close> or \<open>'reverse'\<close>.\<close>

datatype call_type = Resolve | Reverse

text \<open>
  \<open>RecordKeyOrKeys\<close> (line 50): one key or an array of keys. \<open>Array.isArray\<close>
  (line 130) tells the two apart.
\<close>

datatype key_or_keys = Key string | Keys "string list"

text \<open>\<open>Pick<ReadContractParameters, 'blockNumber' | 'blockTag'>\<close> (line 57).\<close>

record block_parameters =
  blockNumber :: "nat option"
  blockTag :: "string option"

text \<open>\<open>GetEnsTextParameters\<close> (lines 53--65).\<close>

record parameters = block_parameters +
  name :: string
  key :: key_or_keys
  universalResolverAddress :: "address option"

text \<open>The object literal handed to \<open>readContract\<close> (lines 133--149).\<close>

record read_request = block_parameters +
  address :: address
  abi :: string
  functionName :: string
  args :: "hex \<times> hex list"

text \<open>The only field of the client the action reads is \<open>client.chain\<close> (line 117).\<close>

record 'c client =
  chain :: "'c option"

text \<open>
  The imported functions (lines 5--21). \<open>getChainContractAddress\<close>, \<open>packetToBytes\<close>,
  \<open>readContract\<close> and \<open>decodeFunctionResult\<close> may throw; \<open>readContract\<close> is the one
  network call and answers with the tuple \<open>[bytes[], address]\<close>.
\<close>

record ('c, 'x) env =
  getChainContractAddress :: "nat option \<Rightarrow> 'c \<Rightarrow> string \<Rightarrow> 'x exn + address"
  packetToBytes :: "string \<Rightarrow> 'x exn + byte list"
  toHex :: "byte list \<Rightarrow> hex"
  namehash :: "string \<Rightarrow> hex"
  encodeFunctionData :: "string \<Rightarrow> hex \<Rightarrow> string \<Rightarrow> hex"
  readContract :: "read_request \<Rightarrow> 'x exn + hex list \<times> address"
  decodeFunctionResult :: "string \<Rightarrow> hex \<Rightarrow> 'x exn + string"
  isNullUniversalResolverError :: "'x exn \<Rightarrow> call_type \<Rightarrow> bool"

subsection \<open>The object \<open>decodedRecords\<close>\<close>

text \<open>
  \<open>decodedRecords\<close> is created by the literal \<open>{}\<close> (line 151): an ordinary object whose
  prototype is \<open>Object.prototype\<close>. Its own properties are kept in creation order; a
  value is \<open>None\<close> for \<open>null\<close> and \<open>Some s\<close> for the string \<open>s\<close>.
\<close>

datatype prototype = ObjectPrototype | NullPrototype

record js_object =
  properties :: "(string \<times> string option) list"
  proto :: prototype

text \<open>
  What the action can return: \<open>null\<close>, a string, the object \<open>decodedRecords\<close>, and what
  a property read finds when the object has no own property of that name:
  \<open>undefined\<close>, or the value found through \<open>Object.prototype\<close> for that name
  (\<open>Object.prototype\<close> itself for \<open>__proto__\<close>, the built-in for \<open>toString\<close>, ...).
\<close>

datatype js_value =
    JSUndefined
  | JSNull
  | JSString string
  | JSObject js_object
  | JSInherited string

definition emptyObject :: js_object where
  "emptyObject = \<lparr>properties = [], proto = ObjectPrototype\<rparr>"

text \<open>
  The assignment \<open>decodedRecords[k] = v\<close> (lines 158 and 168). An own property is
  overwritten in place. Otherwise the name \<open>__proto__\<close> reaches the accessor inherited
  from \<open>Object.prototype\<close>, whose setter replaces the prototype when \<open>v\<close> is \<open>null\<close> and
  does nothing when \<open>v\<close> is a string; once the prototype is \<open>null\<close> there is no accessor
  any more. Every other name becomes a new own property, after the existing ones.
\<close>

definition setProperty :: "js_object \<Rightarrow> string \<Rightarrow> string option \<Rightarrow> js_object" where
  "setProperty obj k v =
     (if k = ''__proto__'' \<and> proto obj = ObjectPrototype \<and> map_of (properties obj) k = None
      then (case v of None \<Rightarrow> obj\<lparr>proto := NullPrototype\<rparr> | Some s \<Rightarrow> obj)
      else obj\<lparr>properties := AList.update k v (properties obj)\<rparr>)"

text \<open>The read \<open>decodedRecords[k]\<close> (line 172).\<close>

definition getProperty :: "js_object \<Rightarrow> string \<Rightarrow> js_value" where
  "getProperty obj k =
     (case map_of (properties obj) k of
        Some None \<Rightarrow> JSNull
      | Some (Some s) \<Rightarrow> JSString s
      | None \<Rightarrow> (case proto obj of ObjectPrototype \<Rightarrow> JSInherited k | NullPrototype \<Rightarrow> JSUndefined))"

text \<open>
  A property key is a string. An array used as a key (line 172, when \<open>key\<close> is an array)
  is converted by \<open>Array.prototype.toString\<close>, which joins the elements with commas; an
  index past the end of \<open>keys\<close> (line 155) reads \<open>undefined\<close>, whose key is the string
  \<open>undefined\<close>.
\<close>

fun joinComma :: "string list \<Rightarrow> string" where
  "joinComma [] = []"
| "joinComma [k] = k"
| "joinComma (k # ks) = k @ '','' @ joinComma ks"

fun toPropertyKey :: "key_or_keys \<Rightarrow> string" where
  "toPropertyKey (Key k) = k"
| "toPropertyKey (Keys ks) = joinComma ks"

definition keyAt :: "string list \<Rightarrow> nat \<Rightarrow> string" where
  "keyAt keys i = (if i < length keys then keys ! i else ''undefined'')"

text \<open>
  The order in which the own property names of an object are enumerated
  (\<open>Object.keys\<close>, \<open>for ... in\<close>, \<open>JSON.stringify\<close>): first the names that are array
  indices (the canonical decimal form of a number below \<open>2^32 - 1\<close>) in ascending
  numeric order, then all other names in creation order.
\<close>

definition isDigit :: "char \<Rightarrow> bool" where
  "isDigit c = (48 \<le> (of_char c :: nat) \<and> (of_char c :: nat) \<le> 57)"

definition decimalValue :: "string \<Rightarrow> nat" where
  "decimalValue s = foldl (\<lambda>n c. 10 * n + (of_char c - 48)) 0 s"

definition arrayIndex :: "string \<Rightarrow> nat option" where
  "arrayIndex s =
     (if s \<noteq> [] \<and> list_all isDigit s \<and> (s = ''0'' \<or> hd s \<noteq> CHR ''0'') \<and> decimalValue s < 4294967295
      then Some (decimalValue s) else None)"

definition ownKeys :: "js_object \<Rightarrow> string list" where
  "ownKeys obj =
     sort_key (\<lambda>k. case arrayIndex k of Some n \<Rightarrow> n | None \<Rightarrow> 0)
       (filter (\<lambda>k. arrayIndex k \<noteq> None) (map fst (properties obj)))
     @ filter (\<lambda>k. arrayIndex k = None) (map fst (properties obj))"

section \<open>The action\<close>

text \<open>
  Lines 115--127: the address of the universal resolver. The test \<open>!universalResolverAddress\<close>
  holds of \<open>undefined\<close> and of the empty string.
\<close>

definition resolverAddress :: "('c, 'x) env \<Rightarrow> 'c client \<Rightarrow> parameters \<Rightarrow> 'x exn + address" where
  "resolverAddress env client p =
     (let fromChain =
            (case chain client of
               None \<Rightarrow> Inl (Error ''client chain not configured. universalResolverAddress is required.'')
             | Some c \<Rightarrow> getChainContractAddress env (blockNumber p) c ''ensUniversalResolver'')
      in case universalResolverAddress p of
           None \<Rightarrow> fromChain
         | Some a \<Rightarrow> if a = [] then fromChain else Inr a)"

text \<open>Line 130.\<close>

fun keysOf :: "key_or_keys \<Rightarrow> string list" where
  "keysOf (Keys ks) = ks"
| "keysOf (Key k) = [k]"

text \<open>Lines 157--168: the value stored for one sub-result.\<close>

definition decodeRecord :: "('c, 'x) env \<Rightarrow> hex \<Rightarrow> 'x exn + string option" where
  "decodeRecord env encodedRecord =
     (if encodedRecord = ''0x'' then Inr None
      else (case decodeFunctionResult env ''text'' encodedRecord of
              Inl err \<Rightarrow> Inl err
            | Inr record \<Rightarrow> Inr (if record = [] then None else Some record)))"

text \<open>Lines 153--169: the loop over \<open>res[0]\<close>.\<close>

function decodeLoop ::
  "('c, 'x) env \<Rightarrow> string list \<Rightarrow> hex list \<Rightarrow> nat \<Rightarrow> js_object \<Rightarrow> 'x exn + js_object" where
  "decodeLoop env keys res0 i decodedRecords =
     (if i < length res0
      then (case decodeRecord env (res0 ! i) of
              Inl err \<Rightarrow> Inl err
            | Inr v \<Rightarrow> decodeLoop env keys res0 (Suc i) (setProperty decodedRecords (keyAt keys i) v))
      else Inr decodedRecords)"
  by pat_completeness auto
termination
  by (relation "measure (\<lambda>(env, keys, res0, i, decodedRecords). length res0 - i)") auto

text \<open>Lines 133--149: the request of the aggregating call.\<close>

definition resolveRequest ::
  "('c, 'x) env \<Rightarrow> address \<Rightarrow> byte list \<Rightarrow> string list \<Rightarrow> parameters \<Rightarrow> read_request" where
  "resolveRequest env a packet keys p =
     \<lparr>blockNumber = blockNumber p, blockTag = blockTag p,
      address = a, abi = ''universalResolverResolveArrayAbi'', functionName = ''resolve'',
      args = (toHex env packet, map (\<lambda>k. encodeFunctionData env ''text'' (namehash env (name p)) k) keys)\<rparr>"

text \<open>
  Lines 133--173, the body of \<open>try\<close>: the outcome and the list of the requests sent
  through \<open>readContract\<close>.
\<close>

definition tryBlock ::
  "('c, 'x) env \<Rightarrow> address \<Rightarrow> string list \<Rightarrow> parameters \<Rightarrow> ('x exn + js_value) \<times> read_request list" where
  "tryBlock env a keys p =
     (case packetToBytes env (name p) of
        Inl err \<Rightarrow> (Inl err, [])
      | Inr packet \<Rightarrow>
          (let request = resolveRequest env a packet keys p in
           case readContract env request of
             Inl err \<Rightarrow> (Inl err, [request])
           | Inr res \<Rightarrow>
               (case decodeLoop env keys (fst res) 0 emptyObject of
                  Inl err \<Rightarrow> (Inl err, [request])
                | Inr decodedRecords \<Rightarrow>
                    (Inr (if length keys = 1 then getProperty decodedRecords (toPropertyKey (key p))
                          else JSObject decodedRecords),
                     [request]))))"

text \<open>Lines 174--177, the \<open>catch\<close> clause.\<close>

definition catchBlock :: "('c, 'x) env \<Rightarrow> 'x exn + js_value \<Rightarrow> 'x exn + js_value" where
  "catchBlock env outcome =
     (case outcome of
        Inl err \<Rightarrow> (if isNullUniversalResolverError env err Resolve then Inr JSNull else Inl err)
      | Inr v \<Rightarrow> Inr v)"

text \<open>Lines 101--178.\<close>

definition getEnsText ::
  "('c, 'x) env \<Rightarrow> 'c client \<Rightarrow> parameters \<Rightarrow> ('x exn + js_value) \<times> read_request list" where
  "getEnsText env client p =
     (case resolverAddress env client p of
        Inl err \<Rightarrow> (Inl err, [])
      | Inr a \<Rightarrow>
          (let keys = keysOf (key p); r = tryBlock env a keys p
           in (catchBlock env (fst r), snd r)))"

section \<open>The name hash\<close>

text \<open>
  \<open>namehash\<close> (utils/ens/namehash.js) is imported by the action (line 16) but its code is
  not among the embedded files. Section 4.1 of the specification describes it under the
  name \<open>toNameHash\<close>; the definitions of this section follow that description.
\<close>

text \<open>
  Modelled from the spec: the labels of a name, which the code of \<open>namehash\<close> (missing)
  obtains by splitting the name at its dots (section 3: the label separator is \<open>.\<close>).
\<close>

fun splitLabels :: "string \<Rightarrow> string list" where
  "splitLabels [] = [[]]"
| "splitLabels (c # cs) =
     (if c = CHR ''.'' then [] # splitLabels cs
      else (case splitLabels cs of [] \<Rightarrow> [[c]] | l # ls \<Rightarrow> (c # l) # ls))"

text \<open>Modelled from the spec: the bytes of a label (\<open>labelBytes\<close> in section 4.1; the conversion is missing).\<close>

definition labelBytes :: "string \<Rightarrow> byte list" where
  "labelBytes label = map (\<lambda>c. word_of_nat (of_char c)) label"

text \<open>Modelled from the spec: the 32-byte zero digest the missing \<open>namehash\<close> starts from.\<close>

definition zeroDigest :: "byte list" where
  "zeroDigest = replicate 32 0"

text \<open>
  Modelled from the spec: the loop of the missing \<open>namehash\<close>. For each label, from the
  rightmost to the leftmost, the digest becomes \<open>hash (digest \<parallel> hash labelBytes)\<close>. The
  specification does not name the hash function: it is the parameter \<open>h\<close>.
\<close>

definition digestOfLabels :: "(byte list \<Rightarrow> byte list) \<Rightarrow> string list \<Rightarrow> byte list" where
  "digestOfLabels h labels = foldr (\<lambda>label digest. h (digest @ h (labelBytes label))) labels zeroDigest"

text \<open>Modelled from the spec: \<open>toNameHash\<close> of section 4.1, for the missing \<open>namehash\<close>.\<close>

definition toNameHash :: "(byte list \<Rightarrow> byte list) \<Rightarrow> string \<Rightarrow> byte list" where
  "toNameHash h n = digestOfLabels h (splitLabels n)"

text \<open>Every byte string the computation of \<open>toNameHash h n\<close> applies \<open>h\<close> to.\<close>

fun hashedOfLabels :: "(byte list \<Rightarrow> byte list) \<Rightarrow> string list \<Rightarrow> byte list list" where
  "hashedOfLabels h [] = []"
| "hashedOfLabels h (label # labels) =
     labelBytes label # (digestOfLabels h labels @ h (labelBytes label)) # hashedOfLabels h labels"

definition hashed :: "(byte list \<Rightarrow> byte list) \<Rightarrow> string \<Rightarrow> byte list list" where
  "hashed h n = hashedOfLabels h (splitLabels n)"

text \<open>
  A function with 32-byte values to instantiate \<open>h\<close> with in examples. It is not a
  cryptographic hash: a short input is padded with zeros, a long one is folded in two.
\<close>

definition exampleHash :: "byte list \<Rightarrow> byte list" where
  "exampleHash x =
     (if length x < 32 then x @ replicate (32 - length x) 0
      else map2 (\<lambda>d e. 3 * d + e + 1) (take 32 x) (take 32 (drop 32 x @ replicate 32 0)))"

section \<open>An example environment\<close>

text \<open>
  A concrete environment on which the theorems below are instantiated. The packet of a
  name is the sequence of its labels, each after its length, closed by a zero byte; the
  universal resolver answers every request with \<open>answer\<close>; a sub-result \<open>0x:\<close> followed
  by a text decodes to that text, anything else fails to decode; \<open>ResolverNotFound\<close> is
  the one error the classifier recognises.
\<close>

definition hexDigit :: "nat \<Rightarrow> char" where
  "hexDigit n = ''0123456789abcdef'' ! (n mod 16)"

definition exampleEnv :: "(string exn + hex list \<times> address) \<Rightarrow> (unit, string) env" where
  "exampleEnv answer =
     \<lparr>getChainContractAddress = (\<lambda>bn c contract. Inr ''0xUniversalResolver''),
      packetToBytes =
        (\<lambda>n. Inr (concat (map (\<lambda>l. word_of_nat (length l) # labelBytes l) (splitLabels n)) @ [0])),
      toHex = (\<lambda>bs. ''0x'' @ concat (map (\<lambda>b. [hexDigit (unat b div 16), hexDigit (unat b)]) bs)),
      namehash = (\<lambda>n. ''0xnode:'' @ n),
      encodeFunctionData = (\<lambda>f node k. ''0x'' @ f @ ''('' @ node @ '','' @ k @ '')''),
      readContract = (\<lambda>request. answer),
      decodeFunctionResult =
        (\<lambda>f d. if take 3 d = ''0x:'' then Inr (drop 3 d) else Inl (Thrown ''AbiDecodingError'')),
      isNullUniversalResolverError =
        (\<lambda>err callType. err = Thrown ''ResolverNotFound'' \<and> callType = Resolve)\<rparr>"

definition exampleClient :: "unit client" where
  "exampleClient = \<lparr>chain = Some ()\<rparr>"

definition exampleParameters :: "key_or_keys \<Rightarrow> parameters" where
  "exampleParameters k =
     \<lparr>blockNumber = None, blockTag = Some ''latest'', name = ''alice.eth'', key = k,
      universalResolverAddress = None\<rparr>"

section \<open>The loop over the sub-results\<close>

declare decodeLoop.simps [simp del]


text \<open>When every sub-result decodes, the loop is a sequence of assignments.\<close>

lemma decodeLoop_all_decoded:
  assumes "\<forall>j<length rs. decodeRecord env (rs ! j) = Inr (vs ! j)"
  shows "decodeLoop env keys rs i obj =
           Inr (fold (\<lambda>j obj. setProperty obj (keyAt keys j) (vs ! j)) [i..<length rs] obj)"
  using assms
proof (induction "length rs - i" arbitrary: i obj)
  case 0
  then show ?case by (simp add: decodeLoop.simps [of env keys rs i])
next
  case (Suc n)
  then have "i < length rs" by simp
  with Suc show ?case
    by (simp add: decodeLoop.simps [of env keys rs i] upt_conv_Cons)
qed

text \<open>The first sub-result that fails to decode ends the loop with its error.\<close>

lemma decodeLoop_first_error:
  assumes "i \<le> m" and "m < length rs"
    and "decodeRecord env (rs ! m) = Inl err"
    and "\<forall>j. i \<le> j \<and> j < m \<longrightarrow> (\<exists>v. decodeRecord env (rs ! j) = Inr v)"
  shows "decodeLoop env keys rs i obj = Inl err"
  using assms
proof (induction "m - i" arbitrary: i obj)
  case 0
  then show ?case by (simp add: decodeLoop.simps [of env keys rs i])
next
  case (Suc n)
  then have lt: "i < m" by simp
  with Suc.prems obtain v where v: "decodeRecord env (rs ! i) = Inr v" by blast
  have "decodeLoop env keys rs (Suc i) (setProperty obj (keyAt keys i) v) = Inl err"
    using Suc lt by (intro Suc.hyps) auto
  with v lt Suc.prems show ?case
    by (simp add: decodeLoop.simps [of env keys rs i])
qed

section \<open>Assignments to \<open>decodedRecords\<close>\<close>

lemma setProperty_plain:
  "k \<noteq> ''__proto__'' \<Longrightarrow> setProperty obj k v = obj\<lparr>properties := AList.update k v (properties obj)\<rparr>"
  by (simp add: setProperty_def)

lemma member_differs: "x \<in> A \<Longrightarrow> y \<notin> A \<Longrightarrow> x \<noteq> y"
  by blast

lemma fold_setProperty_updates:
  assumes "length ks = n" and "length vs = n" and "''__proto__'' \<notin> set ks" and "i \<le> n"
  shows "fold (\<lambda>j obj. setProperty obj (keyAt ks j) (vs ! j)) [i..<n] obj =
           obj\<lparr>properties := AList.updates (drop i ks) (drop i vs) (properties obj)\<rparr>"
  using assms
proof (induction "n - i" arbitrary: i obj)
  case 0
  then show ?case by simp
next
  case (Suc d)
  then have lt: "i < n" by simp
  have mem: "ks ! i \<in> set ks"
    using lt Suc.prems by simp
  have key: "keyAt ks i = ks ! i" "ks ! i \<noteq> ''__proto__''"
    using lt Suc.prems(1) apply (simp add: keyAt_def)
    using mem Suc.prems(3) by (rule member_differs)
  have step: "fold (\<lambda>j obj. setProperty obj (keyAt ks j) (vs ! j)) [Suc i..<n]
                (setProperty obj (ks ! i) (vs ! i)) =
              (setProperty obj (ks ! i) (vs ! i))
                \<lparr>properties := AList.updates (drop (Suc i) ks) (drop (Suc i) vs)
                   (properties (setProperty obj (ks ! i) (vs ! i)))\<rparr>"
    using Suc lt by (intro Suc.hyps) auto
  have dk: "drop i ks = ks ! i # drop (Suc i) ks" and dv: "drop i vs = vs ! i # drop (Suc i) vs"
    using lt Suc.prems by (simp_all add: Cons_nth_drop_Suc)
  show ?case
    using lt key step by (simp add: upt_conv_Cons dk dv setProperty_plain)
qed

lemma remdups_snoc: "remdups (ys @ [k]) = filter (\<lambda>x. x \<noteq> k) (remdups ys) @ [k]"
  by (induction ys) auto

lemma updates_keys_order:
  "length vs = length ks \<Longrightarrow>
   map fst (AList.updates ks vs al) =
     map fst al @ rev (remdups (rev (filter (\<lambda>k. k \<notin> fst ` set al) ks)))"
proof (induction ks arbitrary: vs al)
  case Nil
  then show ?case by simp
next
  case (Cons k ks)
  then obtain v vs' where vs: "vs = v # vs'" "length vs' = length ks"
    by (cases vs) auto
  show ?case
  proof (cases "k \<in> fst ` set al")
    case True
    then show ?thesis
      using Cons.IH [OF vs(2), of "AList.update k v al"] vs
      by (simp add: update_keys dom_update insert_absorb)
  next
    case False
    then show ?thesis
      using Cons.IH [OF vs(2), of "AList.update k v al"] vs
      by (simp add: update_keys dom_update remdups_snoc remdups_filter rev_filter conj_commute)
  qed
qed

lemma updates_last_write:
  "length vs = length ks \<Longrightarrow> i < length ks \<Longrightarrow> ks ! i \<notin> set (drop (Suc i) ks) \<Longrightarrow>
   map_of (AList.updates ks vs al) (ks ! i) = Some (vs ! i)"
proof (induction ks arbitrary: vs al i)
  case Nil
  then show ?case by simp
next
  case (Cons k ks)
  then obtain v vs' where vs: "vs = v # vs'" "length vs' = length ks"
    by (cases vs) auto
  show ?case
  proof (cases i)
    case 0
    with Cons.prems vs show ?thesis
      by (simp add: updates_conv' update_conv')
  next
    case (Suc i')
    with Cons.prems vs Cons.IH [OF vs(2), of i' "AList.update k v al"] show ?thesis
      by simp
  qed
qed

lemma map_eq_nth: "map f xs = map g ys \<Longrightarrow> j < length xs \<Longrightarrow> f (xs ! j) = g (ys ! j)"
  by (metis length_map nth_map)

lemma decodeLoop_plain_keys:
  assumes "length rs = length ks" and "''__proto__'' \<notin> set ks"
    and "map (decodeRecord env) rs = map Inr vs"
  shows "decodeLoop env ks rs 0 emptyObject =
           Inr \<lparr>properties = AList.updates ks vs [], proto = ObjectPrototype\<rparr>"
proof -
  have len: "length vs = length rs"
    using assms(3) by (metis length_map)
  have each: "\<forall>j<length rs. decodeRecord env (rs ! j) = Inr (vs ! j)"
    using assms(3) by (simp add: map_eq_nth)
  show ?thesis
    using fold_setProperty_updates [of ks "length ks" vs 0 emptyObject] assms(1,2) len
    by (simp add: decodeLoop_all_decoded [OF each] emptyObject_def)
qed

section \<open>The action as a whole\<close>

lemma getEnsText_after_call:
  assumes "resolverAddress env client p = Inr a"
    and "packetToBytes env (name p) = Inr packet"
    and "readContract env (resolveRequest env a packet (keysOf (key p)) p) = Inr (rs, resolver)"
  shows "getEnsText env client p =
           (case decodeLoop env (keysOf (key p)) rs 0 emptyObject of
              Inl err \<Rightarrow> catchBlock env (Inl err)
            | Inr decodedRecords \<Rightarrow>
                Inr (if length (keysOf (key p)) = 1
                     then getProperty decodedRecords (toPropertyKey (key p))
                     else JSObject decodedRecords),
            [resolveRequest env a packet (keysOf (key p)) p])"
  using assms by (simp add: getEnsText_def tryBlock_def catchBlock_def split: sum.splits)

lemma getEnsText_call_fails:
  assumes "resolverAddress env client p = Inr a"
    and "packetToBytes env (name p) = Inr packet"
    and "readContract env (resolveRequest env a packet (keysOf (key p)) p) = Inl err"
  shows "getEnsText env client p =
           (catchBlock env (Inl err), [resolveRequest env a packet (keysOf (key p)) p])"
  using assms by (simp add: getEnsText_def tryBlock_def)

lemma array_of_one_key_as_scalar:
  "getEnsText env client (p\<lparr>key := Keys [k]\<rparr>) = getEnsText env client (p\<lparr>key := Key k\<rparr>)"
proof -
  have "resolverAddress env client (p\<lparr>key := Keys [k]\<rparr>) = resolverAddress env client (p\<lparr>key := Key k\<rparr>)"
    by (simp add: resolverAddress_def split: option.splits)
  moreover have "resolveRequest env a packet [k] (p\<lparr>key := Keys [k]\<rparr>) =
      resolveRequest env a packet [k] (p\<lparr>key := Key k\<rparr>)" for a packet
    by (simp add: resolveRequest_def)
  then have "tryBlock env a [k] (p\<lparr>key := Keys [k]\<rparr>) = tryBlock env a [k] (p\<lparr>key := Key k\<rparr>)" for a
    by (simp add: tryBlock_def Let_def split: sum.splits)
  ultimately show ?thesis
    by (simp add: getEnsText_def Let_def cong: sum.case_cong)
qed

text \<open>
  A request of one key other than \<open>__proto__\<close>, given alone or in an array, answered
  with one sub-result: the action returns the value stored for that sub-result.
\<close>

lemma single_key_returns_value:
  assumes "resolverAddress env client p = Inr a"
    and "packetToBytes env (name p) = Inr packet"
    and "keysOf (key p) = [k]" and "k \<noteq> ''__proto__''"
    and "readContract env (resolveRequest env a packet [k] p) = Inr ([r], resolver)"
    and "decodeRecord env r = Inr v"
  shows "getEnsText env client p =
           (Inr (case v of None \<Rightarrow> JSNull | Some s \<Rightarrow> JSString s), [resolveRequest env a packet [k] p])"
proof -
  have "toPropertyKey (key p) = k"
    using assms(3) by (cases "key p") simp_all
  moreover have "decodeLoop env [k] [r] 0 emptyObject = Inr (setProperty emptyObject k v)"
    using assms(6) by (simp add: decodeLoop.simps [of env "[k]" "[r]"] keyAt_def)
  ultimately show ?thesis
    using getEnsText_after_call [of env client p a packet "[r]" resolver] assms(1-5)
    by (simp add: setProperty_plain getProperty_def emptyObject_def split: option.splits)
qed

lemmas example_defs =
  getEnsText_def resolverAddress_def exampleEnv_def exampleClient_def exampleParameters_def
  tryBlock_def resolveRequest_def catchBlock_def decodeRecord_def setProperty_def getProperty_def
  keyAt_def emptyObject_def decodeLoop.simps labelBytes_def hexDigit_def

lemma example_resolverAddress:
  "resolverAddress (exampleEnv answer) exampleClient (exampleParameters k) = Inr ''0xUniversalResolver''"
  by (simp add: resolverAddress_def exampleEnv_def exampleClient_def exampleParameters_def)

lemma example_packetToBytes:
  "packetToBytes (exampleEnv answer) (name (exampleParameters k)) = Inr [5, 97, 108, 105, 99, 101, 3, 101, 116, 104, 0]"
  by (simp add: exampleEnv_def exampleParameters_def labelBytes_def)

lemma example_readContract: "readContract (exampleEnv answer) request = answer"
  by (simp add: exampleEnv_def)

section \<open>Decoding one sub-result\<close>



section \<open>The guard around the aggregating call\<close>

text \<open>
  C2. When the aggregating call fails and \<open>isNullUniversalResolverError\<close> recognises the
  failure (for the call type \<open>resolve\<close>), the action returns \<open>null\<close>, whatever the shape
  of \<open>key\<close>: the parameters \<open>p\<close> are arbitrary.
\<close>

theorem no_resolver_gives_null:
  assumes "resolverAddress env client p = Inr a"
    and "packetToBytes env (name p) = Inr packet"
    and "readContract env (resolveRequest env a packet (keysOf (key p)) p) = Inl err"
    and "isNullUniversalResolverError env err Resolve"
  shows "getEnsText env client p = (Inr JSNull, [resolveRequest env a packet (keysOf (key p)) p])"
  using assms by (simp add: getEnsText_call_fails catchBlock_def)

theorem no_resolver_gives_null_witness:
  "isNullUniversalResolverError (exampleEnv (Inl (Thrown ''ResolverNotFound''))) (Thrown ''ResolverNotFound'') Resolve
   \<and> fst (getEnsText (exampleEnv (Inl (Thrown ''ResolverNotFound''))) exampleClient
          (exampleParameters (Key ''com.twitter''))) = Inr JSNull
   \<and> fst (getEnsText (exampleEnv (Inl (Thrown ''ResolverNotFound''))) exampleClient
          (exampleParameters (Keys [''email'', ''url'']))) = Inr JSNull"
proof -
  let ?env = "exampleEnv (Inl (Thrown ''ResolverNotFound''))"
  have recognised: "isNullUniversalResolverError ?env (Thrown ''ResolverNotFound'') Resolve"
    by (simp add: exampleEnv_def)
  have address: "resolverAddress ?env exampleClient (exampleParameters k) = Inr ''0xUniversalResolver''" for k
    by (rule example_resolverAddress)
  have packet: "packetToBytes ?env (name (exampleParameters k)) = Inr [5, 97, 108, 105, 99, 101, 3, 101, 116, 104, 0]" for k
    by (rule example_packetToBytes)
  have fails: "readContract ?env request = Inl (Thrown ''ResolverNotFound'')" for request
    by (rule example_readContract)
  show ?thesis
    using recognised
      no_resolver_gives_null [OF address packet fails recognised, of "Key ''com.twitter''"]
      no_resolver_gives_null [OF address packet fails recognised, of "Keys [''email'', ''url'']"]
    by simp
qed

text \<open>
  C3. When the aggregating call fails with an error the classifier does not recognise, the
  action throws that very error; one request was sent and none is sent again.
\<close>

theorem other_failure_is_rethrown:
  assumes "resolverAddress env client p = Inr a"
    and "packetToBytes env (name p) = Inr packet"
    and "readContract env (resolveRequest env a packet (keysOf (key p)) p) = Inl err"
    and "\<not> isNullUniversalResolverError env err Resolve"
  shows "getEnsText env client p = (Inl err, [resolveRequest env a packet (keysOf (key p)) p])"
  using assms by (simp add: getEnsText_call_fails catchBlock_def)

theorem other_failure_is_rethrown_witness:
  "\<not> isNullUniversalResolverError (exampleEnv (Inl (Thrown ''ExecutionReverted''))) (Thrown ''ExecutionReverted'') Resolve
   \<and> fst (getEnsText (exampleEnv (Inl (Thrown ''ExecutionReverted''))) exampleClient
          (exampleParameters (Key ''com.twitter''))) = Inl (Thrown ''ExecutionReverted'')
   \<and> length (snd (getEnsText (exampleEnv (Inl (Thrown ''ExecutionReverted''))) exampleClient
          (exampleParameters (Key ''com.twitter'')))) = 1"
proof -
  let ?env = "exampleEnv (Inl (Thrown ''ExecutionReverted''))"
  let ?p = "exampleParameters (Key ''com.twitter'')"
  have other: "\<not> isNullUniversalResolverError ?env (Thrown ''ExecutionReverted'') Resolve"
    by (simp add: exampleEnv_def)
  have address: "resolverAddress ?env exampleClient ?p = Inr ''0xUniversalResolver''"
    by (rule example_resolverAddress)
  have packet: "packetToBytes ?env (name ?p) = Inr [5, 97, 108, 105, 99, 101, 3, 101, 116, 104, 0]"
    by (rule example_packetToBytes)
  have fails: "readContract ?env request = Inl (Thrown ''ExecutionReverted'')" for request
    by (rule example_readContract)
  show ?thesis
    using other other_failure_is_rethrown [OF address packet fails other]
    by simp
qed

text \<open>
  C6. With no resolver address in the parameters (absent, or the empty string, which \<open>!\<close>
  takes for missing as well) and no chain on the client, the action throws the error of
  line 118, and no request has been sent through \<open>readContract\<close>.
\<close>

theorem no_chain_no_address_fails_before_call:
  assumes "universalResolverAddress p = None \<or> universalResolverAddress p = Some []"
    and "chain client = None"
  shows "getEnsText env client p =
           (Inl (Error ''client chain not configured. universalResolverAddress is required.''), [])"
  using assms by (auto simp: getEnsText_def resolverAddress_def)

theorem no_chain_no_address_fails_before_call_witness:
  "getEnsText (exampleEnv (Inr ([''0x:wagmi_sh''], ''0xResolver''))) \<lparr>chain = None\<rparr>
     (exampleParameters (Key ''com.twitter''))
   = (Inl (Error ''client chain not configured. universalResolverAddress is required.''), [])"
  using no_chain_no_address_fails_before_call
    [of "exampleParameters (Key ''com.twitter'')" "\<lparr>chain = None\<rparr>"
      "exampleEnv (Inr ([''0x:wagmi_sh''], ''0xResolver''))"]
  by (simp add: exampleParameters_def)

text \<open>
  C7. A sub-result that is not the sentinel and that \<open>decodeFunctionResult\<close> rejects makes
  the action throw the decoding error (of the first such sub-result): the error passes
  through the \<open>catch\<close> clause, which rethrows it because it is not the no-resolver
  condition. The length of the answer is not constrained.
\<close>

theorem malformed_record_is_thrown:
  assumes "resolverAddress env client p = Inr a"
    and "packetToBytes env (name p) = Inr packet"
    and "readContract env (resolveRequest env a packet (keysOf (key p)) p) = Inr (rs, resolver)"
    and "m < length rs"
    and "rs ! m \<noteq> ''0x''"
    and "decodeFunctionResult env ''text'' (rs ! m) = Inl err"
    and "\<forall>j<m. \<exists>v. decodeRecord env (rs ! j) = Inr v"
    and "\<not> isNullUniversalResolverError env err Resolve"
  shows "getEnsText env client p = (Inl err, [resolveRequest env a packet (keysOf (key p)) p])"
proof -
  have "decodeRecord env (rs ! m) = Inl err"
    using assms(5,6) by (simp add: decodeRecord_def)
  then have "decodeLoop env (keysOf (key p)) rs 0 emptyObject = Inl err"
    using assms(4,7) by (intro decodeLoop_first_error [where m = m]) auto
  then show ?thesis
    using assms(8) by (simp add: getEnsText_after_call [OF assms(1-3)] catchBlock_def)
qed

theorem malformed_record_is_thrown_witness:
  "decodeFunctionResult (exampleEnv (Inr ([''0x'', ''0xzz''], ''0xResolver''))) ''text'' ''0xzz''
     = Inl (Thrown ''AbiDecodingError'')
   \<and> fst (getEnsText (exampleEnv (Inr ([''0x'', ''0xzz''], ''0xResolver''))) exampleClient
          (exampleParameters (Keys [''email'', ''url'']))) = Inl (Thrown ''AbiDecodingError'')"
proof -
  let ?env = "exampleEnv (Inr ([''0x'', ''0xzz''], ''0xResolver''))"
  let ?p = "exampleParameters (Keys [''email'', ''url''])"
  have address: "resolverAddress ?env exampleClient ?p = Inr ''0xUniversalResolver''"
    by (rule example_resolverAddress)
  have packet: "packetToBytes ?env (name ?p) = Inr [5, 97, 108, 105, 99, 101, 3, 101, 116, 104, 0]"
    by (rule example_packetToBytes)
  have answer: "readContract ?env request = Inr ([''0x'', ''0xzz''], ''0xResolver'')" for request
    by (rule example_readContract)
  have position: "1 < length [''0x'', ''0xzz'']" and payload: "[''0x'', ''0xzz''] ! 1 \<noteq> ''0x''"
    by simp_all
  have malformed: "decodeFunctionResult ?env ''text'' ([''0x'', ''0xzz''] ! 1) = Inl (Thrown ''AbiDecodingError'')"
    by (simp add: exampleEnv_def)
  have before: "\<forall>j<1. \<exists>v. decodeRecord ?env ([''0x'', ''0xzz''] ! j) = Inr v"
    by (simp add: decodeRecord_def)
  have other: "\<not> isNullUniversalResolverError ?env (Thrown ''AbiDecodingError'') Resolve"
    by (simp add: exampleEnv_def)
  show ?thesis
    using malformed
      malformed_record_is_thrown [OF address packet answer position payload malformed before other]
    by simp
qed

section \<open>The shape of the result\<close>

text \<open>
  C10. For an empty array of keys the request is sent with no sub-call, and when the
  resolver answers with no sub-result the action returns the empty object, not \<open>null\<close>.
\<close>

theorem empty_keys_give_empty_mapping:
  assumes "resolverAddress env client p = Inr a"
    and "packetToBytes env (name p) = Inr packet"
    and "key p = Keys []"
    and "readContract env (resolveRequest env a packet [] p) = Inr ([], resolver)"
  shows "getEnsText env client p = (Inr (JSObject emptyObject), [resolveRequest env a packet [] p])
         \<and> snd (args (resolveRequest env a packet [] p)) = []"
  using assms
  by (simp add: getEnsText_def tryBlock_def catchBlock_def resolveRequest_def decodeLoop.simps)

theorem empty_keys_give_empty_mapping_witness:
  "getEnsText (exampleEnv (Inr ([], ''0xResolver''))) exampleClient (exampleParameters (Keys []))
   = (Inr (JSObject \<lparr>properties = [], proto = ObjectPrototype\<rparr>),
      [resolveRequest (exampleEnv (Inr ([], ''0xResolver''))) ''0xUniversalResolver''
         [5, 97, 108, 105, 99, 101, 3, 101, 116, 104, 0] [] (exampleParameters (Keys []))])"
proof -
  let ?env = "exampleEnv (Inr ([], ''0xResolver''))"
  let ?p = "exampleParameters (Keys [])"
  have address: "resolverAddress ?env exampleClient ?p = Inr ''0xUniversalResolver''"
    by (rule example_resolverAddress)
  have packet: "packetToBytes ?env (name ?p) = Inr [5, 97, 108, 105, 99, 101, 3, 101, 116, 104, 0]"
    by (rule example_packetToBytes)
  have keys: "key ?p = Keys []"
    by (simp add: exampleParameters_def)
  have answer: "readContract ?env request = Inr ([], ''0xResolver'')" for request
    by (rule example_readContract)
  show ?thesis
    using empty_keys_give_empty_mapping [OF address packet keys answer]
    by (simp add: emptyObject_def)
qed

text \<open>
  C4 (amended). For a request of several keys (any number but one) none of which is
  \<open>__proto__\<close>, answered with one sub-result per key, each of which decodes: the action
  returns an object whose own keys are exactly the requested keys, created in the order of
  their first request; the keys are enumerated in that order when none of them is an array
  index, and in general the array indices come first, in ascending numeric order, followed
  by the other keys in the order of their first request; the value of a key is the
  decoding of the sub-result at the last position of that key, whatever the other
  sub-results are.
\<close>

theorem multiple_keys_mapping:
  assumes "resolverAddress env client p = Inr a"
    and "packetToBytes env (name p) = Inr packet"
    and "key p = Keys ks" and "length ks \<noteq> 1" and "''__proto__'' \<notin> set ks"
    and "readContract env (resolveRequest env a packet ks p) = Inr (rs, resolver)"
    and "length rs = length ks"
    and "map (decodeRecord env) rs = map Inr vs"
  shows "\<exists>obj. getEnsText env client p = (Inr (JSObject obj), [resolveRequest env a packet ks p])
           \<and> set (map fst (properties obj)) = set ks
           \<and> map fst (properties obj) = rev (remdups (rev ks))
           \<and> ownKeys obj =
               sort_key (\<lambda>k. case arrayIndex k of Some n \<Rightarrow> n | None \<Rightarrow> 0)
                 (filter (\<lambda>k. arrayIndex k \<noteq> None) (rev (remdups (rev ks))))
               @ filter (\<lambda>k. arrayIndex k = None) (rev (remdups (rev ks)))
           \<and> (list_all (\<lambda>k. arrayIndex k = None) ks \<longrightarrow> ownKeys obj = rev (remdups (rev ks)))
           \<and> (\<forall>i<length ks. ks ! i \<notin> set (drop (Suc i) ks)
                 \<longrightarrow> map_of (properties obj) (ks ! i) = Some (vs ! i)
                   \<and> decodeRecord env (rs ! i) = Inr (vs ! i))"
proof -
  let ?obj = "\<lparr>properties = AList.updates ks vs [], proto = ObjectPrototype\<rparr>"
  have len: "length vs = length ks"
    using assms(7,8) by (metis length_map)
  have loop: "decodeLoop env ks rs 0 emptyObject = Inr ?obj"
    using assms(7,5,8) by (rule decodeLoop_plain_keys)
  have result: "getEnsText env client p = (Inr (JSObject ?obj), [resolveRequest env a packet ks p])"
    using getEnsText_after_call [of env client p a packet rs resolver] assms(1-4,6)
    by (simp add: loop)
  have order: "map fst (properties ?obj) = rev (remdups (rev ks))"
    using updates_keys_order [OF len, of "[]"] by simp
  have keyset: "set (map fst (properties ?obj)) = set ks"
    unfolding order by simp
  have own: "ownKeys ?obj =
               sort_key (\<lambda>k. case arrayIndex k of Some n \<Rightarrow> n | None \<Rightarrow> 0)
                 (filter (\<lambda>k. arrayIndex k \<noteq> None) (rev (remdups (rev ks))))
               @ filter (\<lambda>k. arrayIndex k = None) (rev (remdups (rev ks)))"
    unfolding ownKeys_def order ..
  have plain: "ownKeys ?obj = rev (remdups (rev ks))"
    if "list_all (\<lambda>k. arrayIndex k = None) ks"
  proof -
    have "\<forall>k\<in>set (rev (remdups (rev ks))). arrayIndex k = None"
      using that by (simp add: list_all_iff)
    then have "filter (\<lambda>k. arrayIndex k \<noteq> None) (rev (remdups (rev ks))) = []"
      and "filter (\<lambda>k. arrayIndex k = None) (rev (remdups (rev ks))) = rev (remdups (rev ks))"
      by (simp_all add: filter_empty_conv filter_id_conv)
    then show ?thesis
      unfolding own by simp
  qed
  have val: "map_of (properties ?obj) (ks ! i) = Some (vs ! i) \<and> decodeRecord env (rs ! i) = Inr (vs ! i)"
    if "i < length ks" and "ks ! i \<notin> set (drop (Suc i) ks)" for i
  proof -
    have "decodeRecord env (rs ! i) = Inr (vs ! i)"
      using assms(7,8) that(1) by (simp add: map_eq_nth)
    then show ?thesis
      using updates_last_write [OF len that] by simp
  qed
  show ?thesis
    using result keyset order own plain val by (intro exI [of _ ?obj]) blast
qed

theorem multiple_keys_mapping_witness:
  "\<exists>obj. fst (getEnsText (exampleEnv (Inr ([''0x:alice@example.org'', ''0x''], ''0xResolver'')))
              exampleClient (exampleParameters (Keys [''email'', ''url''])))
           = Inr (JSObject obj)
         \<and> ownKeys obj = [''email'', ''url'']
         \<and> getProperty obj ''email'' = JSString ''alice@example.org''
         \<and> getProperty obj ''url'' = JSNull"
proof -
  let ?env = "exampleEnv (Inr ([''0x:alice@example.org'', ''0x''], ''0xResolver''))"
  let ?ks = "[''email'', ''url'']"
  let ?p = "exampleParameters (Keys ?ks)"
  have address: "resolverAddress ?env exampleClient ?p = Inr ''0xUniversalResolver''"
    by (rule example_resolverAddress)
  have packet: "packetToBytes ?env (name ?p) = Inr [5, 97, 108, 105, 99, 101, 3, 101, 116, 104, 0]"
    by (rule example_packetToBytes)
  have keys: "key ?p = Keys ?ks" and several: "length ?ks \<noteq> 1" and plain: "''__proto__'' \<notin> set ?ks"
    by (simp_all add: exampleParameters_def)
  have answer: "readContract ?env request = Inr ([''0x:alice@example.org'', ''0x''], ''0xResolver'')"
    for request
    by (rule example_readContract)
  have lengths: "length [''0x:alice@example.org'', ''0x''] = length ?ks"
    by simp
  have decoded: "map (decodeRecord ?env) [''0x:alice@example.org'', ''0x'']
                   = map Inr [Some ''alice@example.org'', None]"
    by (simp add: decodeRecord_def exampleEnv_def)
  have noIndex: "list_all (\<lambda>k. arrayIndex k = None) ?ks"
    by (simp add: arrayIndex_def isDigit_def)
  from multiple_keys_mapping [OF address packet keys several plain answer lengths decoded]
  obtain obj where result: "getEnsText ?env exampleClient ?p
        = (Inr (JSObject obj), [resolveRequest ?env ''0xUniversalResolver'' [5, 97, 108, 105, 99, 101, 3, 101, 116, 104, 0] ?ks ?p])"
    and order: "list_all (\<lambda>k. arrayIndex k = None) ?ks \<longrightarrow> ownKeys obj = rev (remdups (rev ?ks))"
    and entries: "\<forall>i<length ?ks. ?ks ! i \<notin> set (drop (Suc i) ?ks)
                  \<longrightarrow> map_of (properties obj) (?ks ! i) = Some ([Some ''alice@example.org'', None] ! i)
                    \<and> decodeRecord ?env ([''0x:alice@example.org'', ''0x''] ! i)
                        = Inr ([Some ''alice@example.org'', None] ! i)"
    by blast
  have "ownKeys obj = ?ks"
    using order noIndex by simp
  moreover have "map_of (properties obj) ''email'' = Some (Some ''alice@example.org'')"
    using entries [rule_format, of 0] by simp
  moreover have "map_of (properties obj) ''url'' = Some None"
    using entries [rule_format, of 1] by simp
  ultimately show ?thesis
    using result by (intro exI [of _ obj]) (simp add: getProperty_def)
qed

text \<open>
  C4 as stated, with the keys of the mapping in the requested order, fails: requested in
  the order \<open>b\<close>, \<open>1\<close>, the keys of the returned object are enumerated in the order
  \<open>1\<close>, \<open>b\<close>, since \<open>1\<close> is an array index.
\<close>

theorem requested_order_counterexample:
  "fst (getEnsText (exampleEnv (Inr ([''0x:x'', ''0x:y''], ''0xResolver''))) exampleClient
         (exampleParameters (Keys [''b'', ''1''])))
     = Inr (JSObject \<lparr>properties = [(''b'', Some ''x''), (''1'', Some ''y'')], proto = ObjectPrototype\<rparr>)
   \<and> ownKeys \<lparr>properties = [(''b'', Some ''x''), (''1'', Some ''y'')], proto = ObjectPrototype\<rparr>
     = [''1'', ''b'']
   \<and> ownKeys \<lparr>properties = [(''b'', Some ''x''), (''1'', Some ''y'')], proto = ObjectPrototype\<rparr>
     \<noteq> [''b'', ''1'']"
  by (simp add: example_defs ownKeys_def arrayIndex_def isDigit_def decimalValue_def)

text \<open>
  C5. The request carries one sub-call per requested key, repeated or not. For the key
  \<open>__proto__\<close> requested twice, with sub-results that decode to \<open>a\<close> and \<open>b\<close>, the
  returned object has no entry of that name: both assignments reach the inherited
  accessor, which ignores a string, and reading the key finds \<open>Object.prototype\<close>.
\<close>

theorem duplicate_proto_key_has_no_entry:
  "getEnsText (exampleEnv (Inr ([''0x:a'', ''0x:b''], ''0xResolver''))) exampleClient
     (exampleParameters (Keys [''__proto__'', ''__proto__'']))
   = (Inr (JSObject \<lparr>properties = [], proto = ObjectPrototype\<rparr>),
      [\<lparr>blockNumber = None, blockTag = Some ''latest'', address = ''0xUniversalResolver'',
        abi = ''universalResolverResolveArrayAbi'', functionName = ''resolve'',
        args = (''0x05616c6963650365746800'',
                [''0xtext(0xnode:alice.eth,__proto__)'', ''0xtext(0xnode:alice.eth,__proto__)''])\<rparr>])
   \<and> getProperty \<lparr>properties = [], proto = ObjectPrototype\<rparr> ''__proto__'' = JSInherited ''__proto__''"
  by (simp add: example_defs)

text \<open>
  C9. An array of one key is treated as that key alone (lemma
  \<open>array_of_one_key_as_scalar\<close>), and the action returns the result of the read
  \<open>decodedRecords[key]\<close>. For the array holding the key \<open>__proto__\<close>, with a sub-result
  that decodes to \<open>abc\<close>, that read does not give the decoded string: the assignment
  was ignored by the inherited accessor and the read finds \<open>Object.prototype\<close>; with the
  sentinel as sub-result the prototype is replaced by \<open>null\<close> and the read gives
  \<open>undefined\<close>.
\<close>

theorem array_of_proto_key_returns_prototype:
  "fst (getEnsText (exampleEnv (Inr ([''0x:abc''], ''0xResolver''))) exampleClient
         (exampleParameters (Keys [''__proto__''])))
     = Inr (JSInherited ''__proto__'')
   \<and> fst (getEnsText (exampleEnv (Inr ([''0x''], ''0xResolver''))) exampleClient
         (exampleParameters (Keys [''__proto__''])))
     = Inr JSUndefined"
  by (simp add: example_defs)

section \<open>The name hash is a function of the labels and their order\<close>

lemma length_digestOfLabels:
  "\<forall>x. length (h x) = 32 \<Longrightarrow> length (digestOfLabels h ls) = 32"
  by (cases ls) (simp_all add: digestOfLabels_def zeroDigest_def)

lemma digestOfLabels_Cons:
  "digestOfLabels h (l # ls) = h (digestOfLabels h ls @ h (labelBytes l))"
  by (simp add: digestOfLabels_def)

lemma labelBytes_inj: "labelBytes l = labelBytes l' \<Longrightarrow> l = l'"
proof -
  have "inj (\<lambda>c::char. word_of_nat (of_char c) :: byte)"
    by (auto simp: inj_def word_of_nat_eq_iff take_bit_eq_mod)
  then show "labelBytes l = labelBytes l' \<Longrightarrow> l = l'"
    by (simp add: labelBytes_def inj_map_eq_map)
qed

text \<open>
  A collision of two digests is a collision of \<open>h\<close>, or a value of \<open>h\<close> that is the zero
  digest: where \<open>h\<close> has neither on a set \<open>S\<close> that holds everything hashed, equal digests
  come from equal sequences of labels.
\<close>

lemma digestOfLabels_inj:
  assumes len: "\<forall>x. length (h x) = 32"
    and inj: "inj_on h S"
    and nz: "\<forall>x\<in>S. h x \<noteq> zeroDigest"
  shows "set (hashedOfLabels h ls) \<subseteq> S \<Longrightarrow> set (hashedOfLabels h ls') \<subseteq> S \<Longrightarrow>
         digestOfLabels h ls = digestOfLabels h ls' \<Longrightarrow> ls = ls'"
proof (induction ls arbitrary: ls')
  case Nil
  show ?case
  proof (cases ls')
    case Nil
    then show ?thesis by simp
  next
    case (Cons l' ls'')
    with Nil.prems have "digestOfLabels h ls'' @ h (labelBytes l') \<in> S"
      and "h (digestOfLabels h ls'' @ h (labelBytes l')) = zeroDigest"
      by (simp_all add: digestOfLabels_def)
    with nz show ?thesis by blast
  qed
next
  case (Cons l ls)
  show ?case
  proof (cases ls')
    case Nil
    with Cons.prems have "digestOfLabels h ls @ h (labelBytes l) \<in> S"
      and "h (digestOfLabels h ls @ h (labelBytes l)) = zeroDigest"
      by (simp_all add: digestOfLabels_def)
    with nz show ?thesis by blast
  next
    case (Cons l' ls'')
    let ?x = "digestOfLabels h ls @ h (labelBytes l)"
    let ?y = "digestOfLabels h ls'' @ h (labelBytes l')"
    have mem: "?x \<in> S" "?y \<in> S" "labelBytes l \<in> S" "labelBytes l' \<in> S"
      using Cons.prems Cons by simp_all
    have "h ?x = h ?y"
      using Cons.prems(3) Cons by (simp add: digestOfLabels_Cons)
    with inj mem have "?x = ?y"
      by (simp add: inj_on_eq_iff)
    then have digests: "digestOfLabels h ls = digestOfLabels h ls''"
      and labels: "h (labelBytes l) = h (labelBytes l')"
      using len by simp_all
    from labels inj mem have "labelBytes l = labelBytes l'"
      by (simp add: inj_on_eq_iff)
    then have "l = l'"
      by (rule labelBytes_inj)
    moreover have "ls = ls''"
      using Cons.prems Cons digests by (intro Cons.IH) simp_all
    ultimately show ?thesis
      using Cons by simp
  qed
qed

lemma inj_on_set_distinct: "inj_on f (set xs) \<longleftrightarrow> distinct (map f (remdups xs))"
  by (simp add: distinct_map)

text \<open>
  C8. \<open>toNameHash\<close> is a function of the hash \<open>h\<close> and of the name only. With a hash
  of 32-byte values the digest has 32 bytes; and if \<open>h\<close> has no collision among the byte
  strings hashed for two names, and none of them is sent to the zero digest, the two
  digests are equal exactly when the names have the same labels in the same order. So
  \<open>a.b.eth\<close> and \<open>b.a.eth\<close>, whose labels differ in order, have different digests.
\<close>

theorem toNameHash_content_and_order:
  assumes "\<forall>x. length (h x) = 32"
    and "inj_on h (set (hashed h n @ hashed h n'))"
    and "\<forall>x\<in>set (hashed h n @ hashed h n'). h x \<noteq> zeroDigest"
  shows "length (toNameHash h n) = 32
         \<and> (toNameHash h n = toNameHash h n' \<longleftrightarrow> splitLabels n = splitLabels n')"
proof
  show "length (toNameHash h n) = 32"
    using assms(1) by (simp add: toNameHash_def length_digestOfLabels)
  show "toNameHash h n = toNameHash h n' \<longleftrightarrow> splitLabels n = splitLabels n'"
  proof
    assume "toNameHash h n = toNameHash h n'"
    then show "splitLabels n = splitLabels n'"
      using digestOfLabels_inj [OF assms, of "splitLabels n" "splitLabels n'"]
      by (simp add: toNameHash_def hashed_def)
  next
    assume "splitLabels n = splitLabels n'"
    then show "toNameHash h n = toNameHash h n'"
      by (simp add: toNameHash_def)
  qed
qed

theorem toNameHash_content_and_order_witness:
  "splitLabels ''a.b.eth'' = [''a'', ''b'', ''eth''] \<and> splitLabels ''b.a.eth'' = [''b'', ''a'', ''eth'']
   \<and> length (toNameHash exampleHash ''a.b.eth'') = 32
   \<and> toNameHash exampleHash ''a.b.eth'' \<noteq> toNameHash exampleHash ''b.a.eth''"
proof -
  have sized: "\<forall>x. length (exampleHash x) = 32"
    by (simp add: exampleHash_def)
  have collisionFree:
    "inj_on exampleHash (set (hashed exampleHash ''a.b.eth'' @ hashed exampleHash ''b.a.eth''))"
    unfolding inj_on_set_distinct by code_simp
  have nonZero:
    "\<forall>x\<in>set (hashed exampleHash ''a.b.eth'' @ hashed exampleHash ''b.a.eth''). exampleHash x \<noteq> zeroDigest"
    by code_simp
  have labels: "splitLabels ''a.b.eth'' = [''a'', ''b'', ''eth'']" "splitLabels ''b.a.eth'' = [''b'', ''a'', ''eth'']"
    by simp_all
  show ?thesis
    using toNameHash_content_and_order [OF sized collisionFree nonZero] labels by simp
qed

end
